theory Spec2Isabelle
  imports Complex_Main "HOL-Library.Multiset" "HOL-Library.Log_Nat"
begin

section \<open>The point quadtree of \<^verbatim>\<open>PointQuadTree.cpp\<close>\<close>

text \<open>
  The source file implements the member functions of the class template
  \<^verbatim>\<open>PointQuadTree<T>\<close>: the constructor, \<^verbatim>\<open>Insert\<close>, \<^verbatim>\<open>Subdivide\<close>,
  \<^verbatim>\<open>QueryRange\<close> and \<^verbatim>\<open>QueryRange_private_recursive\<close>. The header that declares
  \<^verbatim>\<open>Vector2\<close>, \<^verbatim>\<open>Rect_AABB\<close>, \<^verbatim>\<open>Data_Node<T>\<close> and the constant
  \<^verbatim>\<open>QT_NODE_MAX_CAPACITY\<close> is not part of the sources. The geometric types and their
  predicates are therefore modelled from the specification, and the capacity is a parameter
  \<open>cap\<close> of every operation that reads it.
\<close>

subsection \<open>Geometric primitives\<close>

text \<open>
  Modelled from the spec: the header's \<^verbatim>\<open>Vector2\<close> is missing; it is a pair of
  coordinates \<open>x\<close>, \<open>y\<close> (the two fields the source reads). Coordinates are real
  numbers, a machine number being the real it denotes. The arithmetic on them is exact,
  except where the rounding of the number type is a parameter (\<open>Subdivide_rounded\<close>,
  \<open>Insert_rounded\<close>).
\<close>

record Vector2 =
  x :: real
  y :: real

text \<open>
  Modelled from the spec: the header's \<^verbatim>\<open>Rect_AABB\<close> is missing; a region is a centre
  and half-extents along each axis (the fields \<^verbatim>\<open>centerPoint\<close> and
  \<^verbatim>\<open>halfDimension\<close> the source reads).
\<close>

record Rect_AABB =
  centerPoint :: Vector2
  halfDimension :: Vector2

text \<open>
  Modelled from the spec: the header's \<^verbatim>\<open>Data_Node<T>\<close> is missing; an entry is
  a payload of type \<open>'a\<close> paired with its coordinate (the field \<^verbatim>\<open>point\<close> the source
  reads).
\<close>

record 'a Data_Node =
  point :: Vector2
  payload :: 'a

text \<open>
  Modelled from the spec: \<^verbatim>\<open>Rect_AABB::contains\<close> is missing. The point lies within
  \<open>[center - half, center + half]\<close> on both axes, both ends included.
\<close>

definition contains :: "Rect_AABB \<Rightarrow> Vector2 \<Rightarrow> bool" where
  "contains r p \<longleftrightarrow>
     x (centerPoint r) - x (halfDimension r) \<le> x p \<and>
     x p \<le> x (centerPoint r) + x (halfDimension r) \<and>
     y (centerPoint r) - y (halfDimension r) \<le> y p \<and>
     y p \<le> y (centerPoint r) + y (halfDimension r)"

text \<open>
  Modelled from the spec: \<^verbatim>\<open>Rect_AABB::ContainsPoint\<close>, the name the range query
  calls, is missing. The specification knows one containment test for a region, so it is the
  same closed-interval test as \<open>contains\<close>.
\<close>

definition ContainsPoint :: "Rect_AABB \<Rightarrow> Vector2 \<Rightarrow> bool" where
  "ContainsPoint r p \<longleftrightarrow>
     x (centerPoint r) - x (halfDimension r) \<le> x p \<and>
     x p \<le> x (centerPoint r) + x (halfDimension r) \<and>
     y (centerPoint r) - y (halfDimension r) \<le> y p \<and>
     y p \<le> y (centerPoint r) + y (halfDimension r)"

text \<open>
  Modelled from the spec: \<^verbatim>\<open>Rect_AABB::Intersects_AABB\<close> is missing. Two regions
  intersect when their closed intervals overlap on both axes.
\<close>

definition Intersects_AABB :: "Rect_AABB \<Rightarrow> Rect_AABB \<Rightarrow> bool" where
  "Intersects_AABB r q \<longleftrightarrow>
     x (centerPoint r) - x (halfDimension r) \<le> x (centerPoint q) + x (halfDimension q) \<and>
     x (centerPoint q) - x (halfDimension q) \<le> x (centerPoint r) + x (halfDimension r) \<and>
     y (centerPoint r) - y (halfDimension r) \<le> y (centerPoint q) + y (halfDimension q) \<and>
     y (centerPoint q) - y (halfDimension q) \<le> y (centerPoint r) + y (halfDimension r)"

subsection \<open>Nodes\<close>

text \<open>
  A node has the fields \<^verbatim>\<open>boundaries\<close>, \<^verbatim>\<open>points\<close> and the four child pointers
  \<^verbatim>\<open>northWest\<close>, \<^verbatim>\<open>northEast\<close>, \<^verbatim>\<open>southEast\<close>, \<^verbatim>\<open>southWest\<close>. The
  constructor sets all four pointers to \<^verbatim>\<open>nullptr\<close> and \<^verbatim>\<open>Subdivide\<close>, the only
  function that assigns them, assigns all four; so a node is either \<open>Leaf\<close> (all four null)
  or \<open>Internal\<close> (all four allocated, each child owned by this node alone).
\<close>

datatype 'a PointQuadTree =
    is_Leaf: Leaf (boundaries: Rect_AABB) (points: "'a Data_Node list")
  | Internal (boundaries: Rect_AABB) (points: "'a Data_Node list")
      (northWest: "'a PointQuadTree") (northEast: "'a PointQuadTree")
      (southEast: "'a PointQuadTree") (southWest: "'a PointQuadTree")

text \<open>The constructor: the given region, an empty bucket, no children.\<close>

definition PointQuadTree :: "Rect_AABB \<Rightarrow> 'a PointQuadTree" where
  "PointQuadTree b = Leaf b []"

subsection \<open>Subdivide\<close>

text \<open>
  \<^verbatim>\<open>Subdivide\<close> follows the source statement by statement. \<^verbatim>\<open>children_size\<close> is
  initialised with the node's own \<^verbatim>\<open>halfDimension\<close> (the source does not divide it).
  Where the source writes the vector \<^verbatim>\<open>children_size\<close> in a scalar position (the
  centres of the south-east, north-west and north-east children), the component of the same
  axis is meant, as in the first centre, which the source writes out in full. The bucket is
  not touched.
\<close>

definition Subdivide :: "'a PointQuadTree \<Rightarrow> 'a PointQuadTree" where
  "Subdivide t =
    (let children_size =
           \<lparr>x = x (halfDimension (boundaries t)), y = y (halfDimension (boundaries t))\<rparr>;
         child_center =
           \<lparr>x = x (centerPoint (boundaries t)) - x children_size,
            y = y (centerPoint (boundaries t)) - y children_size\<rparr>;
         southWest = PointQuadTree \<lparr>centerPoint = child_center, halfDimension = children_size\<rparr>;
         child_center =
           \<lparr>x = x (centerPoint (boundaries t)) + x children_size,
            y = y (centerPoint (boundaries t)) - y children_size\<rparr>;
         southEast = PointQuadTree \<lparr>centerPoint = child_center, halfDimension = children_size\<rparr>;
         child_center =
           \<lparr>x = x (centerPoint (boundaries t)) - x children_size,
            y = y (centerPoint (boundaries t)) + y children_size\<rparr>;
         northWest = PointQuadTree \<lparr>centerPoint = child_center, halfDimension = children_size\<rparr>;
         child_center =
           \<lparr>x = x (centerPoint (boundaries t)) + x children_size,
            y = y (centerPoint (boundaries t)) + y children_size\<rparr>;
         northEast = PointQuadTree \<lparr>centerPoint = child_center, halfDimension = children_size\<rparr>
     in Internal (boundaries t) (points t) northWest northEast southEast southWest)"

subsection \<open>Insert\<close>

text \<open>
  \<^verbatim>\<open>Insert\<close> returns its boolean together with the node as the call leaves it. The
  recursion into a child that \<^verbatim>\<open>Subdivide\<close> has just created is not structural, and
  with a capacity of zero it never ends; so the function is a partial function into
  \<open>option\<close>, where \<open>None\<close> is a call that does not return. The test
  \<^verbatim>\<open>northWest == nullptr\<close> is \<open>is_Leaf\<close>; after it the node is internal, so the
  \<open>Leaf\<close> branch of the case below is never taken.
\<close>

partial_function (option) Insert ::
  "nat \<Rightarrow> 'a Data_Node \<Rightarrow> 'a PointQuadTree \<Rightarrow> (bool \<times> 'a PointQuadTree) option" where
  "Insert cap data t =
    (if \<not> contains (boundaries t) (point data) then Some (False, t)
     else if length (points t) < cap then
       Some (True,
         (case t of
            Leaf b ps \<Rightarrow> Leaf b (ps @ [data])
          | Internal b ps nw ne se sw \<Rightarrow> Internal b (ps @ [data]) nw ne se sw))
     else
       (case (if is_Leaf t then Subdivide t else t) of
          Leaf b ps \<Rightarrow> None
        | Internal b ps nw ne se sw \<Rightarrow>
            Option.bind (Insert cap data nw) (\<lambda>(r, nw').
              if r then Some (True, Internal b ps nw' ne se sw)
              else Option.bind (Insert cap data ne) (\<lambda>(r, ne').
                if r then Some (True, Internal b ps nw' ne' se sw)
                else Option.bind (Insert cap data se) (\<lambda>(r, se').
                  if r then Some (True, Internal b ps nw' ne' se' sw)
                  else Option.bind (Insert cap data sw) (\<lambda>(r, sw').
                    if r then Some (True, Internal b ps nw' ne' se' sw')
                    else Some (False, Internal b ps nw' ne' se' sw')))))))"

declare Insert.simps [code]

text \<open>A sequence of \<^verbatim>\<open>Insert\<close> calls on the root, with the result of each call.\<close>

fun Insert_all ::
  "nat \<Rightarrow> 'a Data_Node list \<Rightarrow> 'a PointQuadTree \<Rightarrow> (bool list \<times> 'a PointQuadTree) option" where
  "Insert_all cap [] t = Some ([], t)"
| "Insert_all cap (d # ds) t =
     (case Insert cap d t of
        None \<Rightarrow> None
      | Some (r, t') \<Rightarrow>
          (case Insert_all cap ds t' of
             None \<Rightarrow> None
           | Some (rs, t'') \<Rightarrow> Some (r # rs, t'')))"

subsection \<open>QueryRange\<close>

text \<open>
  The \<^verbatim>\<open>for each\<close> loop over the bucket: every entry whose point the range contains is
  pushed to the back of the result vector. (The source passes the entry itself to
  \<^verbatim>\<open>ContainsPoint\<close> and pushes to \<^verbatim>\<open>results\<close>; the entry's point and the
  parameter \<^verbatim>\<open>result\<close> are meant.)
\<close>

fun for_each_point ::
  "Rect_AABB \<Rightarrow> 'a Data_Node list \<Rightarrow> 'a Data_Node list \<Rightarrow> 'a Data_Node list" where
  "for_each_point rng [] result = result"
| "for_each_point rng (p # ps) result =
     for_each_point rng ps (if ContainsPoint rng (point p) then result @ [p] else result)"

text \<open>
  The recursive query is a member function of a non-const node writing to a vector it gets
  by reference: the model passes both the node and the vector through the call and returns
  them as the call leaves them. Children are visited in the source's order: north-east,
  north-west, south-east, south-west. The test \<^verbatim>\<open>northEast == nullptr\<close> is the
  \<open>Leaf\<close> case.
\<close>

fun QueryRange_private_recursive ::
  "Rect_AABB \<Rightarrow> 'a PointQuadTree \<Rightarrow> 'a Data_Node list \<Rightarrow> 'a PointQuadTree \<times> 'a Data_Node list" where
  "QueryRange_private_recursive rng (Leaf b ps) result =
     (if \<not> Intersects_AABB b rng then (Leaf b ps, result)
      else (Leaf b ps, for_each_point rng ps result))"
| "QueryRange_private_recursive rng (Internal b ps nw ne se sw) result =
     (if \<not> Intersects_AABB b rng then (Internal b ps nw ne se sw, result)
      else
        (let result = for_each_point rng ps result;
             (ne', result) = QueryRange_private_recursive rng ne result;
             (nw', result) = QueryRange_private_recursive rng nw result;
             (se', result) = QueryRange_private_recursive rng se result;
             (sw', result) = QueryRange_private_recursive rng sw result
         in (Internal b ps nw' ne' se' sw', result)))"

text \<open>The public query starts the recursion with an empty local vector and returns it.\<close>

definition QueryRange ::
  "Rect_AABB \<Rightarrow> 'a PointQuadTree \<Rightarrow> 'a PointQuadTree \<times> 'a Data_Node list" where
  "QueryRange rng t = (let results = [] in QueryRange_private_recursive rng t results)"

subsection \<open>QueryRange with the header's tests as parameters\<close>

text \<open>
  The range query calls two functions of the missing header, \<^verbatim>\<open>Intersects_AABB\<close> and
  \<^verbatim>\<open>ContainsPoint\<close>, and the source does not say whether they count the edge of a
  region. The same three functions are therefore also written with the two tests as
  parameters; with the closed-interval tests above they are the functions above
  (\<open>QueryRange_with_same\<close>).
\<close>

fun for_each_point_with ::
  "(Rect_AABB \<Rightarrow> Vector2 \<Rightarrow> bool) \<Rightarrow>
   Rect_AABB \<Rightarrow> 'a Data_Node list \<Rightarrow> 'a Data_Node list \<Rightarrow> 'a Data_Node list" where
  "for_each_point_with ContainsPoint' rng [] result = result"
| "for_each_point_with ContainsPoint' rng (p # ps) result =
     for_each_point_with ContainsPoint' rng ps
       (if ContainsPoint' rng (point p) then result @ [p] else result)"

fun QueryRange_private_recursive_with ::
  "(Rect_AABB \<Rightarrow> Rect_AABB \<Rightarrow> bool) \<Rightarrow> (Rect_AABB \<Rightarrow> Vector2 \<Rightarrow> bool) \<Rightarrow>
   Rect_AABB \<Rightarrow> 'a PointQuadTree \<Rightarrow> 'a Data_Node list \<Rightarrow>
   'a PointQuadTree \<times> 'a Data_Node list" where
  "QueryRange_private_recursive_with Intersects_AABB' ContainsPoint' rng (Leaf b ps) result =
     (if \<not> Intersects_AABB' b rng then (Leaf b ps, result)
      else (Leaf b ps, for_each_point_with ContainsPoint' rng ps result))"
| "QueryRange_private_recursive_with Intersects_AABB' ContainsPoint' rng
       (Internal b ps nw ne se sw) result =
     (if \<not> Intersects_AABB' b rng then (Internal b ps nw ne se sw, result)
      else
        (let result = for_each_point_with ContainsPoint' rng ps result;
             (ne', result) =
               QueryRange_private_recursive_with Intersects_AABB' ContainsPoint' rng ne result;
             (nw', result) =
               QueryRange_private_recursive_with Intersects_AABB' ContainsPoint' rng nw result;
             (se', result) =
               QueryRange_private_recursive_with Intersects_AABB' ContainsPoint' rng se result;
             (sw', result) =
               QueryRange_private_recursive_with Intersects_AABB' ContainsPoint' rng sw result
         in (Internal b ps nw' ne' se' sw', result)))"

definition QueryRange_with ::
  "(Rect_AABB \<Rightarrow> Rect_AABB \<Rightarrow> bool) \<Rightarrow> (Rect_AABB \<Rightarrow> Vector2 \<Rightarrow> bool) \<Rightarrow>
   Rect_AABB \<Rightarrow> 'a PointQuadTree \<Rightarrow> 'a PointQuadTree \<times> 'a Data_Node list" where
  "QueryRange_with Intersects_AABB' ContainsPoint' rng t =
     (let results = []
      in QueryRange_private_recursive_with Intersects_AABB' ContainsPoint' rng t results)"

text \<open>
  Modelled from the spec: \<^verbatim>\<open>Rect_AABB::ContainsPoint\<close> is missing. This is the
  containment test with the convention the specification recommends for the edges: the lower
  bound of each axis is included, the upper bound is excluded.
\<close>

definition ContainsPoint_half_open :: "Rect_AABB \<Rightarrow> Vector2 \<Rightarrow> bool" where
  "ContainsPoint_half_open r p \<longleftrightarrow>
     x (centerPoint r) - x (halfDimension r) \<le> x p \<and>
     x p < x (centerPoint r) + x (halfDimension r) \<and>
     y (centerPoint r) - y (halfDimension r) \<le> y p \<and>
     y p < y (centerPoint r) + y (halfDimension r)"

subsection \<open>Subdivide and Insert over a number type that rounds\<close>


text \<open>
  Modelled from the spec: the exponent of the leading bit of a number of the missing number
  type, computed from the bit length of its integer part, or of its reciprocal below one.
\<close>

definition binary_exponent :: "real \<Rightarrow> int" where
  "binary_exponent v =
     (if 1 \<le> \<bar>v\<bar> then bitlen \<lfloor>\<bar>v\<bar>\<rfloor> - 1 else - bitlen (\<lceil>1 / \<bar>v\<bar>\<rceil> - 1))"






subsection \<open>Properties of trees\<close>

text \<open>All entries stored in a subtree: the node's bucket, then the children's entries.\<close>

fun stored :: "'a PointQuadTree \<Rightarrow> 'a Data_Node list" where
  "stored (Leaf b ps) = ps"
| "stored (Internal b ps nw ne se sw) = ps @ stored nw @ stored ne @ stored se @ stored sw"

text \<open>
  The shape of the trees that \<^verbatim>\<open>Insert\<close> builds: a leaf holds at most \<open>cap\<close>
  entries; an internal node holds exactly \<open>cap\<close> entries and its children have the regions
  that \<^verbatim>\<open>Subdivide\<close> computes from the node's own region.
\<close>

fun wf :: "nat \<Rightarrow> 'a PointQuadTree \<Rightarrow> bool" where
  "wf cap (Leaf b ps) \<longleftrightarrow> length ps \<le> cap"
| "wf cap (Internal b ps nw ne se sw) \<longleftrightarrow>
     length ps = cap \<and>
     boundaries nw = boundaries (northWest (Subdivide (Leaf b ps))) \<and>
     boundaries ne = boundaries (northEast (Subdivide (Leaf b ps))) \<and>
     boundaries se = boundaries (southEast (Subdivide (Leaf b ps))) \<and>
     boundaries sw = boundaries (southWest (Subdivide (Leaf b ps))) \<and>
     wf cap nw \<and> wf cap ne \<and> wf cap se \<and> wf cap sw"

text \<open>Every entry of a subtree lies in the region of the subtree's root, at every node.\<close>

fun contained :: "'a PointQuadTree \<Rightarrow> bool" where
  "contained (Leaf b ps) \<longleftrightarrow> list_all (\<lambda>d. contains b (point d)) ps"
| "contained (Internal b ps nw ne se sw) \<longleftrightarrow>
     list_all (\<lambda>d. contains b (point d)) (stored (Internal b ps nw ne se sw)) \<and>
     contained nw \<and> contained ne \<and> contained se \<and> contained sw"

text \<open>
  How a node may change between two states of the tree: the bucket of a leaf may grow; a
  leaf that becomes internal keeps its bucket; an internal node stays internal, keeps its
  bucket, and the same holds for each of its children.
\<close>

fun bucket_frozen :: "'a PointQuadTree \<Rightarrow> 'a PointQuadTree \<Rightarrow> bool" where
  "bucket_frozen (Leaf b ps) (Leaf b' ps') \<longleftrightarrow> True"
| "bucket_frozen (Leaf b ps) (Internal b' ps' nw' ne' se' sw') \<longleftrightarrow> ps' = ps"
| "bucket_frozen (Internal b ps nw ne se sw) (Leaf b' ps') \<longleftrightarrow> False"
| "bucket_frozen (Internal b ps nw ne se sw) (Internal b' ps' nw' ne' se' sw') \<longleftrightarrow>
     ps' = ps \<and> bucket_frozen nw nw' \<and> bucket_frozen ne ne' \<and>
     bucket_frozen se se' \<and> bucket_frozen sw sw'"

subsection \<open>The concrete scenario\<close>

text \<open>
  The root region centred at \<open>(0, 0)\<close> with half-extents \<open>(10, 10)\<close> and the
  five entries at \<open>(1,1)\<close>, \<open>(2,2)\<close>, \<open>(3,3)\<close>, \<open>(4,4)\<close>, \<open>(5,5)\<close>, used
  with capacity 4 to run the operations on concrete inputs.
\<close>

definition region :: "real \<Rightarrow> real \<Rightarrow> real \<Rightarrow> real \<Rightarrow> Rect_AABB" where
  "region cx cy hx hy = \<lparr>centerPoint = \<lparr>x = cx, y = cy\<rparr>, halfDimension = \<lparr>x = hx, y = hy\<rparr>\<rparr>"

definition entry :: "real \<Rightarrow> real \<Rightarrow> nat Data_Node" where
  "entry px py = \<lparr>point = \<lparr>x = px, y = py\<rparr>, payload = 0\<rparr>"

definition root_region :: Rect_AABB where
  "root_region = region 0 0 10 10"

definition scenario :: "nat Data_Node list" where
  "scenario = [entry 1 1, entry 2 2, entry 3 3, entry 4 4, entry 5 5]"

text \<open>The tree the five insertions build with capacity 4.\<close>

definition scenario_tree :: "nat PointQuadTree" where
  "scenario_tree =
     Internal root_region [entry 1 1, entry 2 2, entry 3 3, entry 4 4]
       (Leaf (region (-10) 10 10 10) [])
       (Leaf (region 10 10 10 10) [entry 5 5])
       (Leaf (region 10 (-10) 10 10) [])
       (Leaf (region (-10) (-10) 10 10) [])"



section \<open>Auxiliary facts\<close>

lemma Subdivide_simp:
  "Subdivide t = Internal (boundaries t) (points t)
     (Leaf \<lparr>centerPoint = \<lparr>x = x (centerPoint (boundaries t)) - x (halfDimension (boundaries t)),
                            y = y (centerPoint (boundaries t)) + y (halfDimension (boundaries t))\<rparr>,
            halfDimension = \<lparr>x = x (halfDimension (boundaries t)), y = y (halfDimension (boundaries t))\<rparr>\<rparr> [])
     (Leaf \<lparr>centerPoint = \<lparr>x = x (centerPoint (boundaries t)) + x (halfDimension (boundaries t)),
                            y = y (centerPoint (boundaries t)) + y (halfDimension (boundaries t))\<rparr>,
            halfDimension = \<lparr>x = x (halfDimension (boundaries t)), y = y (halfDimension (boundaries t))\<rparr>\<rparr> [])
     (Leaf \<lparr>centerPoint = \<lparr>x = x (centerPoint (boundaries t)) + x (halfDimension (boundaries t)),
                            y = y (centerPoint (boundaries t)) - y (halfDimension (boundaries t))\<rparr>,
            halfDimension = \<lparr>x = x (halfDimension (boundaries t)), y = y (halfDimension (boundaries t))\<rparr>\<rparr> [])
     (Leaf \<lparr>centerPoint = \<lparr>x = x (centerPoint (boundaries t)) - x (halfDimension (boundaries t)),
                            y = y (centerPoint (boundaries t)) - y (halfDimension (boundaries t))\<rparr>,
            halfDimension = \<lparr>x = x (halfDimension (boundaries t)), y = y (halfDimension (boundaries t))\<rparr>\<rparr> [])"
  by (simp add: Subdivide_def PointQuadTree_def Let_def)

lemma Subdivide_cover:
  assumes "contains b p"
  shows "contains (boundaries (northWest (Subdivide (Leaf b ps)))) p \<or>
         contains (boundaries (northEast (Subdivide (Leaf b ps)))) p \<or>
         contains (boundaries (southEast (Subdivide (Leaf b ps)))) p \<or>
         contains (boundaries (southWest (Subdivide (Leaf b ps)))) p"
  using assms unfolding Subdivide_simp contains_def by simp linarith

lemma Insert_outside:
  "\<not> contains (boundaries t) (point d) \<Longrightarrow> Insert cap d t = Some (False, t)"
  by (subst Insert.simps) simp

lemma Insert_Leaf_room:
  "contains b (point d) \<Longrightarrow> length ps < cap \<Longrightarrow>
   Insert cap d (Leaf b ps) = Some (True, Leaf b (ps @ [d]))"
  by (subst Insert.simps) simp

lemma Insert_Internal_full:
  "contains b (point d) \<Longrightarrow> \<not> length ps < cap \<Longrightarrow>
   Insert cap d (Internal b ps nw ne se sw) =
     Option.bind (Insert cap d nw) (\<lambda>(r, nw').
       if r then Some (True, Internal b ps nw' ne se sw)
       else Option.bind (Insert cap d ne) (\<lambda>(r, ne').
         if r then Some (True, Internal b ps nw' ne' se sw)
         else Option.bind (Insert cap d se) (\<lambda>(r, se').
           if r then Some (True, Internal b ps nw' ne' se' sw)
           else Option.bind (Insert cap d sw) (\<lambda>(r, sw').
             if r then Some (True, Internal b ps nw' ne' se' sw')
             else Some (False, Internal b ps nw' ne' se' sw')))))"
  by (subst Insert.simps) simp

lemma Insert_Leaf_full:
  "contains b (point d) \<Longrightarrow> \<not> length ps < cap \<Longrightarrow>
   Insert cap d (Leaf b ps) = Insert cap d (Subdivide (Leaf b ps))"
  by (subst Insert.simps, subst (2) Insert.simps) (simp add: Subdivide_simp)

lemma chain_cases:
  assumes "Option.bind (f nw) (\<lambda>(r, nw').
       if r then Some (True, Internal b ps nw' ne se sw)
       else Option.bind (f ne) (\<lambda>(r, ne').
         if r then Some (True, Internal b ps nw' ne' se sw)
         else Option.bind (f se) (\<lambda>(r, se').
           if r then Some (True, Internal b ps nw' ne' se' sw)
           else Option.bind (f sw) (\<lambda>(r, sw').
             if r then Some (True, Internal b ps nw' ne' se' sw')
             else Some (False, Internal b ps nw' ne' se' sw'))))) = Some rt"
  obtains
    (first) nw' where "f nw = Some (True, nw')" "rt = (True, Internal b ps nw' ne se sw)"
  | (second) nw' ne' where "f nw = Some (False, nw')" "f ne = Some (True, ne')"
      "rt = (True, Internal b ps nw' ne' se sw)"
  | (third) nw' ne' se' where "f nw = Some (False, nw')" "f ne = Some (False, ne')"
      "f se = Some (True, se')" "rt = (True, Internal b ps nw' ne' se' sw)"
  | (fourth) nw' ne' se' sw' r where "f nw = Some (False, nw')" "f ne = Some (False, ne')"
      "f se = Some (False, se')" "f sw = Some (r, sw')"
      "rt = (r, Internal b ps nw' ne' se' sw')"
proof -
  from assms obtain r1 nw' where 1: "f nw = Some (r1, nw')"
    by (cases "f nw") auto
  show thesis
  proof (cases r1)
    case True
    with 1 assms show thesis by (intro first) auto
  next
    case r1: False
    with 1 assms obtain r2 ne' where 2: "f ne = Some (r2, ne')"
      by (cases "f ne") auto
    show thesis
    proof (cases r2)
      case True
      with 1 r1 2 assms show thesis by (intro second) auto
    next
      case r2: False
      with 1 r1 2 assms obtain r3 se' where 3: "f se = Some (r3, se')"
        by (cases "f se") auto
      show thesis
      proof (cases r3)
        case True
        with 1 r1 2 r2 3 assms show thesis by (intro third) auto
      next
        case r3: False
        with 1 r1 2 r2 3 assms obtain r4 sw' where 4: "f sw = Some (r4, sw')"
          by (cases "f sw") auto
        with 1 r1 2 r2 3 r3 assms show thesis by (intro fourth) (auto split: if_splits)
      qed
    qed
  qed
qed

lemma Insert_body_cases:
  assumes "(if \<not> contains (boundaries t) (point d) then Some (False, t)
     else if length (points t) < cap then
       Some (True,
         (case t of
            Leaf b ps \<Rightarrow> Leaf b (ps @ [d])
          | Internal b ps nw ne se sw \<Rightarrow> Internal b (ps @ [d]) nw ne se sw))
     else
       (case (if is_Leaf t then Subdivide t else t) of
          Leaf b ps \<Rightarrow> None
        | Internal b ps nw ne se sw \<Rightarrow>
            Option.bind (f nw) (\<lambda>(r, nw').
              if r then Some (True, Internal b ps nw' ne se sw)
              else Option.bind (f ne) (\<lambda>(r, ne').
                if r then Some (True, Internal b ps nw' ne' se sw)
                else Option.bind (f se) (\<lambda>(r, se').
                  if r then Some (True, Internal b ps nw' ne' se' sw)
                  else Option.bind (f sw) (\<lambda>(r, sw').
                    if r then Some (True, Internal b ps nw' ne' se' sw')
                    else Some (False, Internal b ps nw' ne' se' sw'))))))) = Some rt"
  obtains
    (outside) "\<not> contains (boundaries t) (point d)" "rt = (False, t)"
  | (room) "contains (boundaries t) (point d)" "length (points t) < cap"
      "rt = (True, case t of Leaf b ps \<Rightarrow> Leaf b (ps @ [d])
                   | Internal b ps nw ne se sw \<Rightarrow> Internal b (ps @ [d]) nw ne se sw)"
  | (first) nw ne se sw nw' where
      "contains (boundaries t) (point d)" "\<not> length (points t) < cap"
      "(if is_Leaf t then Subdivide t else t) = Internal (boundaries t) (points t) nw ne se sw"
      "f nw = Some (True, nw')"
      "rt = (True, Internal (boundaries t) (points t) nw' ne se sw)"
  | (second) nw ne se sw nw' ne' where
      "contains (boundaries t) (point d)" "\<not> length (points t) < cap"
      "(if is_Leaf t then Subdivide t else t) = Internal (boundaries t) (points t) nw ne se sw"
      "f nw = Some (False, nw')" "f ne = Some (True, ne')"
      "rt = (True, Internal (boundaries t) (points t) nw' ne' se sw)"
  | (third) nw ne se sw nw' ne' se' where
      "contains (boundaries t) (point d)" "\<not> length (points t) < cap"
      "(if is_Leaf t then Subdivide t else t) = Internal (boundaries t) (points t) nw ne se sw"
      "f nw = Some (False, nw')" "f ne = Some (False, ne')" "f se = Some (True, se')"
      "rt = (True, Internal (boundaries t) (points t) nw' ne' se' sw)"
  | (fourth) nw ne se sw nw' ne' se' sw' r where
      "contains (boundaries t) (point d)" "\<not> length (points t) < cap"
      "(if is_Leaf t then Subdivide t else t) = Internal (boundaries t) (points t) nw ne se sw"
      "f nw = Some (False, nw')" "f ne = Some (False, ne')" "f se = Some (False, se')"
      "f sw = Some (r, sw')"
      "rt = (r, Internal (boundaries t) (points t) nw' ne' se' sw')"
proof (cases "contains (boundaries t) (point d)")
  case False
  with assms show thesis by (intro outside) auto
next
  case c: True
  show thesis
  proof (cases "length (points t) < cap")
    case True
    with c assms show thesis by (intro room) auto
  next
    case l: False
    obtain nw ne se sw where
      t0: "(if is_Leaf t then Subdivide t else t) = Internal (boundaries t) (points t) nw ne se sw"
      by (cases t) (auto simp: Subdivide_simp)
    from assms c l have ch: "Option.bind (f nw) (\<lambda>(r, nw').
              if r then Some (True, Internal (boundaries t) (points t) nw' ne se sw)
              else Option.bind (f ne) (\<lambda>(r, ne').
                if r then Some (True, Internal (boundaries t) (points t) nw' ne' se sw)
                else Option.bind (f se) (\<lambda>(r, se').
                  if r then Some (True, Internal (boundaries t) (points t) nw' ne' se' sw)
                  else Option.bind (f sw) (\<lambda>(r, sw').
                    if r then Some (True, Internal (boundaries t) (points t) nw' ne' se' sw')
                    else Some (False, Internal (boundaries t) (points t) nw' ne' se' sw'))))) = Some rt"
      unfolding t0 by simp
    from ch show thesis
    proof (cases rule: chain_cases)
      case (first nw')
      with c l t0 show thesis by (intro that(3))
    next
      case (second nw' ne')
      with c l t0 show thesis by (intro that(4))
    next
      case (third nw' ne' se')
      with c l t0 show thesis by (intro that(5))
    next
      case (fourth nw' ne' se' sw' r)
      with c l t0 show thesis by (intro that(6))
    qed
  qed
qed

lemma bucket_frozen_refl: "bucket_frozen t t"
  by (induction t) auto

lemma Insert_basic:
  assumes "Insert cap d t = Some rt"
  shows "boundaries (snd rt) = boundaries t \<and>
         mset (stored (snd rt)) = (if fst rt then add_mset d (mset (stored t)) else mset (stored t)) \<and>
         (fst rt \<longrightarrow> contains (boundaries t) (point d))"
proof (rule Insert.raw_induct[OF _ assms], goal_cases)
  case (1 f cap d t rt)
  note IH = 1(1)
  from 1(2) show ?case
  proof (cases rule: Insert_body_cases)
    case outside
    then show ?thesis by simp
  next
    case room
    then show ?thesis by (cases t) simp_all
  next
    case (first nw ne se sw nw')
    note a = IH[OF first(4)]
    from first(1,2,3,5) a show ?thesis
      by (cases t; clarsimp simp: Subdivide_simp)
  next
    case (second nw ne se sw nw' ne')
    note a = IH[OF second(4)] IH[OF second(5)]
    from second(1,2,3,6) a show ?thesis 
      by (cases t; clarsimp simp: Subdivide_simp)
  next
    case (third nw ne se sw nw' ne' se')
    note a = IH[OF third(4)] IH[OF third(5)] IH[OF third(6)]
    from third(1,2,3,7) a show ?thesis
      by (cases t; clarsimp simp: Subdivide_simp)
  next
    case (fourth nw ne se sw nw' ne' se' sw' r)
    note a = IH[OF fourth(4)] IH[OF fourth(5)] IH[OF fourth(6)] IH[OF fourth(7)]
    from fourth(1,2,3,8) a show ?thesis
      by (cases t; clarsimp simp: Subdivide_simp)
  qed
qed

lemma kids_stored:
  assumes "(if is_Leaf t then Subdivide t else t) = Internal b ps nw ne se sw"
  shows "stored t = ps @ stored nw @ stored ne @ stored se @ stored sw"
  using assms by (cases t) (auto simp: Subdivide_simp)

lemma kids_contained:
  assumes "(if is_Leaf t then Subdivide t else t) = Internal b ps nw ne se sw" "contained t"
  shows "contained nw \<and> contained ne \<and> contained se \<and> contained sw"
  using assms by (cases t) (auto simp: Subdivide_simp)

lemma kids_wf:
  assumes "(if is_Leaf t then Subdivide t else t) = Internal b ps nw ne se sw"
    "wf cap t" "\<not> length (points t) < cap"
  shows "wf cap (Internal b ps nw ne se sw)"
  using assms by (cases t) (auto simp: Subdivide_simp)

lemma kids_frozen:
  assumes "(if is_Leaf t then Subdivide t else t) = Internal b ps nw ne se sw"
    "bucket_frozen nw nw'" "bucket_frozen ne ne'" "bucket_frozen se se'" "bucket_frozen sw sw'"
  shows "bucket_frozen t (Internal b ps nw' ne' se' sw')"
  using assms by (cases t) (auto simp: Subdivide_simp)

lemma contained_stored:
  "contained t \<Longrightarrow> list_all (\<lambda>d. contains (boundaries t) (point d)) (stored t)"
  by (cases t) simp_all

lemma contained_Internal_intro:
  assumes "list_all (\<lambda>d. contains b (point d)) (stored t)" "contains b (point d)"
    "set (ps @ stored nw @ stored ne @ stored se @ stored sw) \<subseteq> insert d (set (stored t))"
    "contained nw" "contained ne" "contained se" "contained sw"
  shows "contained (Internal b ps nw ne se sw)"
proof -
  have "\<forall>e \<in> set (ps @ stored nw @ stored ne @ stored se @ stored sw). contains b (point e)"
    using assms(1-3) unfolding list_all_iff by blast
  with assms(4-7) show ?thesis by (simp add: list_all_iff)
qed

lemma Insert_contained_aux:
  assumes "Insert cap d t = Some rt"
  shows "set (stored (snd rt)) \<subseteq> insert d (set (stored t)) \<and>
         (contained t \<longrightarrow> contained (snd rt))"
proof (rule Insert.raw_induct[OF _ assms], goal_cases)
  case (1 f cap d t rt)
  note IH = 1(1)
  from 1(2) show ?case
  proof (cases rule: Insert_body_cases)
    case outside
    then show ?thesis by auto
  next
    case room
    then show ?thesis by (cases t) (auto simp: list_all_iff)
  next
    case (first nw ne se sw nw')
    note k = kids_stored[OF first(3)]
    note a = IH[OF first(4)]
    have s: "set (points t @ stored nw' @ stored ne @ stored se @ stored sw)
               \<subseteq> insert d (set (stored t))"
      using a unfolding k by auto
    have "contained (Internal (boundaries t) (points t) nw' ne se sw)" if c: "contained t"
      using contained_stored[OF c] first(1) s a kids_contained[OF first(3) c]
      by (intro contained_Internal_intro[where t = t and d = d]) simp_all
    with s first(5) show ?thesis by simp
  next
    case (second nw ne se sw nw' ne')
    note k = kids_stored[OF second(3)]
    note a = IH[OF second(4)] IH[OF second(5)]
    have s: "set (points t @ stored nw' @ stored ne' @ stored se @ stored sw)
               \<subseteq> insert d (set (stored t))"
      using a unfolding k by auto
    have "contained (Internal (boundaries t) (points t) nw' ne' se sw)" if c: "contained t"
      using contained_stored[OF c] second(1) s a kids_contained[OF second(3) c]
      by (intro contained_Internal_intro[where t = t and d = d]) simp_all
    with s second(6) show ?thesis by simp
  next
    case (third nw ne se sw nw' ne' se')
    note k = kids_stored[OF third(3)]
    note a = IH[OF third(4)] IH[OF third(5)] IH[OF third(6)]
    have s: "set (points t @ stored nw' @ stored ne' @ stored se' @ stored sw)
               \<subseteq> insert d (set (stored t))"
      using a unfolding k by auto
    have "contained (Internal (boundaries t) (points t) nw' ne' se' sw)" if c: "contained t"
      using contained_stored[OF c] third(1) s a kids_contained[OF third(3) c]
      by (intro contained_Internal_intro[where t = t and d = d]) simp_all
    with s third(7) show ?thesis by simp
  next
    case (fourth nw ne se sw nw' ne' se' sw' r)
    note k = kids_stored[OF fourth(3)]
    note a = IH[OF fourth(4)] IH[OF fourth(5)] IH[OF fourth(6)] IH[OF fourth(7)]
    have s: "set (points t @ stored nw' @ stored ne' @ stored se' @ stored sw')
               \<subseteq> insert d (set (stored t))"
      using a unfolding k by auto
    have "contained (Internal (boundaries t) (points t) nw' ne' se' sw')" if c: "contained t"
      using contained_stored[OF c] fourth(1) s a kids_contained[OF fourth(3) c]
      by (intro contained_Internal_intro[where t = t and d = d]) simp_all
    with s fourth(8) show ?thesis by simp
  qed
qed

lemma wf_Internal_replace:
  assumes "wf cap (Internal b ps nw ne se sw)"
    "boundaries nw' = boundaries nw" "boundaries ne' = boundaries ne"
    "boundaries se' = boundaries se" "boundaries sw' = boundaries sw"
    "wf cap nw'" "wf cap ne'" "wf cap se'" "wf cap sw'"
  shows "wf cap (Internal b ps nw' ne' se' sw')"
  using assms by simp

lemma wf_Internal_kids:
  "wf cap (Internal b ps nw ne se sw) \<Longrightarrow> wf cap nw \<and> wf cap ne \<and> wf cap se \<and> wf cap sw"
  by simp

lemma Insert_wf_aux:
  assumes "Insert cap d t = Some rt"
  shows "boundaries (snd rt) = boundaries t \<and>
         (wf cap t \<longrightarrow> wf cap (snd rt) \<and> bucket_frozen t (snd rt))"
proof (rule Insert.raw_induct[OF _ assms], goal_cases)
  case (1 f cap d t rt)
  note IH = 1(1)
  from 1(2) show ?case
  proof (cases rule: Insert_body_cases)
    case outside
    then show ?thesis by (simp add: bucket_frozen_refl)
  next
    case room
    then show ?thesis by (cases t) (auto simp: bucket_frozen_refl)
  next
    case (first nw ne se sw nw')
    note a = IH[OF first(4)]
    have "wf cap (Internal (boundaries t) (points t) nw' ne se sw) \<and>
          bucket_frozen t (Internal (boundaries t) (points t) nw' ne se sw)" if w: "wf cap t"
    proof -
      note kw = kids_wf[OF first(3) w first(2)]
      note kk = wf_Internal_kids[OF kw]
      have "wf cap (Internal (boundaries t) (points t) nw' ne se sw)"
        using kk a by (intro wf_Internal_replace[OF kw]) simp_all
      moreover have "bucket_frozen t (Internal (boundaries t) (points t) nw' ne se sw)"
        using kk a by (intro kids_frozen[OF first(3)]) (simp_all add: bucket_frozen_refl)
      ultimately show ?thesis ..
    qed
    with first(5) show ?thesis by simp
  next
    case (second nw ne se sw nw' ne')
    note a = IH[OF second(4)] IH[OF second(5)]
    have "wf cap (Internal (boundaries t) (points t) nw' ne' se sw) \<and>
          bucket_frozen t (Internal (boundaries t) (points t) nw' ne' se sw)" if w: "wf cap t"
    proof -
      note kw = kids_wf[OF second(3) w second(2)]
      note kk = wf_Internal_kids[OF kw]
      have "wf cap (Internal (boundaries t) (points t) nw' ne' se sw)"
        using kk a by (intro wf_Internal_replace[OF kw]) simp_all
      moreover have "bucket_frozen t (Internal (boundaries t) (points t) nw' ne' se sw)"
        using kk a by (intro kids_frozen[OF second(3)]) (simp_all add: bucket_frozen_refl)
      ultimately show ?thesis ..
    qed
    with second(6) show ?thesis by simp
  next
    case (third nw ne se sw nw' ne' se')
    note a = IH[OF third(4)] IH[OF third(5)] IH[OF third(6)]
    have "wf cap (Internal (boundaries t) (points t) nw' ne' se' sw) \<and>
          bucket_frozen t (Internal (boundaries t) (points t) nw' ne' se' sw)" if w: "wf cap t"
    proof -
      note kw = kids_wf[OF third(3) w third(2)]
      note kk = wf_Internal_kids[OF kw]
      have "wf cap (Internal (boundaries t) (points t) nw' ne' se' sw)"
        using kk a by (intro wf_Internal_replace[OF kw]) simp_all
      moreover have "bucket_frozen t (Internal (boundaries t) (points t) nw' ne' se' sw)"
        using kk a by (intro kids_frozen[OF third(3)]) (simp_all add: bucket_frozen_refl)
      ultimately show ?thesis ..
    qed
    with third(7) show ?thesis by simp
  next
    case (fourth nw ne se sw nw' ne' se' sw' r)
    note a = IH[OF fourth(4)] IH[OF fourth(5)] IH[OF fourth(6)] IH[OF fourth(7)]
    have "wf cap (Internal (boundaries t) (points t) nw' ne' se' sw') \<and>
          bucket_frozen t (Internal (boundaries t) (points t) nw' ne' se' sw')" if w: "wf cap t"
    proof -
      note kw = kids_wf[OF fourth(3) w fourth(2)]
      note kk = wf_Internal_kids[OF kw]
      have "wf cap (Internal (boundaries t) (points t) nw' ne' se' sw')"
        using kk a by (intro wf_Internal_replace[OF kw]) simp_all
      moreover have "bucket_frozen t (Internal (boundaries t) (points t) nw' ne' se' sw')"
        using kk a by (intro kids_frozen[OF fourth(3)]) (simp_all add: bucket_frozen_refl)
      ultimately show ?thesis ..
    qed
    with fourth(8) show ?thesis by simp
  qed
qed

lemma Insert_Internal_delegate:
  assumes c: "contains b (point d)" and l: "\<not> length ps < cap"
    and nw: "contains (boundaries nw) (point d) \<longrightarrow> (\<exists>c'. Insert cap d nw = Some (True, c'))"
    and ne: "contains (boundaries ne) (point d) \<longrightarrow> (\<exists>c'. Insert cap d ne = Some (True, c'))"
    and se: "contains (boundaries se) (point d) \<longrightarrow> (\<exists>c'. Insert cap d se = Some (True, c'))"
    and sw: "contains (boundaries sw) (point d) \<longrightarrow> (\<exists>c'. Insert cap d sw = Some (True, c'))"
  shows "Insert cap d (Internal b ps nw ne se sw) =
    (if contains (boundaries nw) (point d) then
       map_option (\<lambda>(r, nw'). (r, Internal b ps nw' ne se sw)) (Insert cap d nw)
     else if contains (boundaries ne) (point d) then
       map_option (\<lambda>(r, ne'). (r, Internal b ps nw ne' se sw)) (Insert cap d ne)
     else if contains (boundaries se) (point d) then
       map_option (\<lambda>(r, se'). (r, Internal b ps nw ne se' sw)) (Insert cap d se)
     else if contains (boundaries sw) (point d) then
       map_option (\<lambda>(r, sw'). (r, Internal b ps nw ne se sw')) (Insert cap d sw)
     else Some (False, Internal b ps nw ne se sw))"
proof (cases "contains (boundaries nw) (point d)")
  case True
  from nw True obtain c' where "Insert cap d nw = Some (True, c')" by blast
  with True show ?thesis by (simp add: Insert_Internal_full[OF c l])
next
  case n1: False
  note o1 = Insert_outside[OF n1, of cap]
  show ?thesis
  proof (cases "contains (boundaries ne) (point d)")
    case True
    from ne True obtain c' where "Insert cap d ne = Some (True, c')" by blast
    with True n1 o1 show ?thesis by (simp add: Insert_Internal_full[OF c l])
  next
    case n2: False
    note o2 = Insert_outside[OF n2, of cap]
    show ?thesis
    proof (cases "contains (boundaries se) (point d)")
      case True
      from se True obtain c' where "Insert cap d se = Some (True, c')" by blast
      with True n1 o1 n2 o2 show ?thesis by (simp add: Insert_Internal_full[OF c l])
    next
      case n3: False
      note o3 = Insert_outside[OF n3, of cap]
      show ?thesis
      proof (cases "contains (boundaries sw) (point d)")
        case True
        from sw True obtain c' where "Insert cap d sw = Some (True, c')" by blast
        with True n1 o1 n2 o2 n3 o3 show ?thesis by (simp add: Insert_Internal_full[OF c l])
      next
        case n4: False
        note o4 = Insert_outside[OF n4, of cap]
        from n1 o1 n2 o2 n3 o3 n4 o4 show ?thesis by (simp add: Insert_Internal_full[OF c l])
      qed
    qed
  qed
qed

lemma wf_cover:
  assumes "wf cap (Internal b ps nw ne se sw)" "contains b p"
  shows "contains (boundaries nw) p \<or> contains (boundaries ne) p \<or>
         contains (boundaries se) p \<or> contains (boundaries sw) p"
  using Subdivide_cover[OF assms(2), of ps] assms(1) by simp

lemma Insert_Internal_True:
  assumes c: "contains b (point d)" and w: "wf cap (Internal b ps nw ne se sw)"
    and nw: "contains (boundaries nw) (point d) \<longrightarrow> (\<exists>c'. Insert cap d nw = Some (True, c'))"
    and ne: "contains (boundaries ne) (point d) \<longrightarrow> (\<exists>c'. Insert cap d ne = Some (True, c'))"
    and se: "contains (boundaries se) (point d) \<longrightarrow> (\<exists>c'. Insert cap d se = Some (True, c'))"
    and sw: "contains (boundaries sw) (point d) \<longrightarrow> (\<exists>c'. Insert cap d sw = Some (True, c'))"
  shows "\<exists>t'. Insert cap d (Internal b ps nw ne se sw) = Some (True, t')"
proof -
  from w have l: "\<not> length ps < cap" by simp
  note eq = Insert_Internal_delegate[OF c l nw ne se sw]
  from wf_cover[OF w c] consider
      (1) "contains (boundaries nw) (point d)"
    | (2) "\<not> contains (boundaries nw) (point d)" "contains (boundaries ne) (point d)"
    | (3) "\<not> contains (boundaries nw) (point d)" "\<not> contains (boundaries ne) (point d)"
          "contains (boundaries se) (point d)"
    | (4) "\<not> contains (boundaries nw) (point d)" "\<not> contains (boundaries ne) (point d)"
          "\<not> contains (boundaries se) (point d)" "contains (boundaries sw) (point d)"
    by blast
  then show ?thesis
  proof cases
    case 1
    from nw 1 obtain c' where "Insert cap d nw = Some (True, c')" by blast
    with 1 show ?thesis by (simp add: eq)
  next
    case 2
    from ne 2(2) obtain c' where "Insert cap d ne = Some (True, c')" by blast
    with 2 show ?thesis by (simp add: eq)
  next
    case 3
    from se 3(3) obtain c' where "Insert cap d se = Some (True, c')" by blast
    with 3 show ?thesis by (simp add: eq)
  next
    case 4
    from sw 4(4) obtain c' where "Insert cap d sw = Some (True, c')" by blast
    with 4 show ?thesis by (simp add: eq)
  qed
qed

lemma wf_Subdivide: "length ps = cap \<Longrightarrow> wf cap (Subdivide (Leaf b ps))"
  by (simp add: Subdivide_simp)

lemma Insert_inside_True:
  assumes "0 < cap"
  shows "wf cap t \<Longrightarrow> contains (boundaries t) (point d) \<Longrightarrow> \<exists>t'. Insert cap d t = Some (True, t')"
proof (induction t)
  case (Leaf b ps)
  show ?case
  proof (cases "length ps < cap")
    case True
    with Leaf show ?thesis by (simp add: Insert_Leaf_room)
  next
    case False
    with Leaf have len: "length ps = cap" by simp
    from Leaf have c: "contains b (point d)" by simp
    have fresh: "\<exists>c'. Insert cap d (Leaf b' []) = Some (True, c')" if "contains b' (point d)" for b'
      using that assms by (simp add: Insert_Leaf_room)
    have "\<exists>t'. Insert cap d (Subdivide (Leaf b ps)) = Some (True, t')"
      using wf_Subdivide[OF len, of b] c unfolding Subdivide_simp
      by (intro Insert_Internal_True) (simp_all add: fresh)
    with c False show ?thesis by (simp add: Insert_Leaf_full)
  qed
next
  case (Internal b ps nw ne se sw)
  from Internal.prems have c: "contains b (point d)" by simp
  from Internal.prems have k: "wf cap nw" "wf cap ne" "wf cap se" "wf cap sw" by simp_all
  show ?case
    using Internal.prems(1) c Internal.IH k
    by (intro Insert_Internal_True) blast+
qed

lemma for_each_point_eq:
  "for_each_point rng ps res = res @ filter (\<lambda>p. ContainsPoint rng (point p)) ps"
  by (induction ps arbitrary: res) simp_all

lemma QueryRange_private_recursive_fst:
  "fst (QueryRange_private_recursive rng t res) = t"
  by (induction t arbitrary: res) (simp_all add: Let_def case_prod_beta)

lemma prune_sound:
  "contains b p \<Longrightarrow> ContainsPoint q p \<Longrightarrow> Intersects_AABB b q"
  unfolding contains_def ContainsPoint_def Intersects_AABB_def by linarith

lemma contained_pruned:
  assumes "contained t" "\<not> Intersects_AABB (boundaries t) q"
  shows "filter (\<lambda>d. ContainsPoint q (point d)) (stored t) = []"
proof -
  have "\<forall>d \<in> set (stored t). contains (boundaries t) (point d)"
    using contained_stored[OF assms(1)] by (simp add: list_all_iff)
  with assms(2) have "\<forall>d \<in> set (stored t). \<not> ContainsPoint q (point d)"
    using prune_sound by blast
  then show ?thesis by (simp add: filter_empty_conv)
qed

lemma QueryRange_private_recursive_snd:
  "contained t \<Longrightarrow>
   mset (snd (QueryRange_private_recursive rng t res)) =
   mset res + mset (filter (\<lambda>d. ContainsPoint rng (point d)) (stored t))"
proof (induction t arbitrary: res)
  case (Leaf b ps)
  show ?case
  proof (cases "Intersects_AABB b rng")
    case True
    then show ?thesis by (simp add: for_each_point_eq)
  next
    case False
    with contained_pruned[OF Leaf.prems, of rng] show ?thesis by simp
  qed
next
  case (Internal b ps nw ne se sw)
  show ?case
  proof (cases "Intersects_AABB b rng")
    case True
    from Internal.prems have "contained nw" "contained ne" "contained se" "contained sw"
      by simp_all
    with True Internal.IH show ?thesis
      by (simp add: Let_def case_prod_beta for_each_point_eq)
  next
    case False
    with contained_pruned[OF Internal.prems, of rng] show ?thesis by simp
  qed
qed

lemma QueryRange_mset:
  "contained t \<Longrightarrow>
   mset (snd (QueryRange rng t)) = mset (filter (\<lambda>d. ContainsPoint rng (point d)) (stored t))"
  by (simp add: QueryRange_def QueryRange_private_recursive_snd)

lemma Insert_wf_total:
  assumes "0 < cap" "wf cap t"
  shows "\<exists>t'. Insert cap d t = Some (contains (boundaries t) (point d), t')"
proof (cases "contains (boundaries t) (point d)")
  case True
  with Insert_inside_True[OF assms] show ?thesis by simp
next
  case False
  then show ?thesis by (simp add: Insert_outside)
qed

lemma Insert_all_total:
  assumes "0 < cap"
  shows "wf cap t \<Longrightarrow> contained t \<Longrightarrow>
    \<exists>t'. Insert_all cap ds t = Some (map (\<lambda>d. contains (boundaries t) (point d)) ds, t') \<and>
         wf cap t' \<and> contained t' \<and> boundaries t' = boundaries t \<and>
         mset (stored t') =
           mset (stored t) + mset (filter (\<lambda>d. contains (boundaries t) (point d)) ds)"
proof (induction ds arbitrary: t)
  case Nil
  then show ?case by simp
next
  case (Cons d ds)
  from Insert_wf_total[OF assms Cons.prems(1), of d] obtain t1 where
    i: "Insert cap d t = Some (contains (boundaries t) (point d), t1)" by blast
  from Insert_basic[OF i] have b: "boundaries t1 = boundaries t"
    and m: "mset (stored t1) =
      (if contains (boundaries t) (point d) then add_mset d (mset (stored t)) else mset (stored t))"
    by simp_all
  from Insert_wf_aux[OF i] Cons.prems(1) have w: "wf cap t1" by simp
  from Insert_contained_aux[OF i] Cons.prems(2) have c: "contained t1" by simp
  from Cons.IH[OF w c] obtain t' where
    r: "Insert_all cap ds t1 = Some (map (\<lambda>d. contains (boundaries t1) (point d)) ds, t')"
      "wf cap t'" "contained t'" "boundaries t' = boundaries t1"
      "mset (stored t') =
        mset (stored t1) + mset (filter (\<lambda>d. contains (boundaries t1) (point d)) ds)"
    by blast
  from i r b m show ?case by simp
qed

lemma Insert_all_partial:
  "Insert_all cap ds t = Some (rs, t') \<Longrightarrow>
   boundaries t' = boundaries t \<and> (contained t \<longrightarrow> contained t') \<and>
   (wf cap t \<longrightarrow> wf cap t')"
proof (induction ds arbitrary: t rs)
  case Nil
  then show ?case by simp
next
  case (Cons d ds)
  from Cons.prems obtain r t1 rs1 where
    i: "Insert cap d t = Some (r, t1)" and a: "Insert_all cap ds t1 = Some (rs1, t')"
    by (auto split: option.splits prod.splits)
  from Insert_wf_aux[OF i] Insert_contained_aux[OF i] Cons.IH[OF a] show ?case
    by auto
qed

lemma QueryRange_private_recursive_append:
  "snd (QueryRange_private_recursive rng t res) =
   res @ snd (QueryRange_private_recursive rng t [])"
proof (induction t arbitrary: res)
  case (Leaf b ps)
  show ?case by (simp add: for_each_point_eq)
next
  case (Internal b ps nw ne se sw)
  note ih = Internal.IH
  show ?case
  proof (cases "Intersects_AABB b rng")
    case False
    then show ?thesis by simp
  next
    case True
    have "snd (QueryRange_private_recursive rng (Internal b ps nw ne se sw) r) =
          for_each_point rng ps r @ snd (QueryRange_private_recursive rng ne []) @
          snd (QueryRange_private_recursive rng nw []) @
          snd (QueryRange_private_recursive rng se []) @
          snd (QueryRange_private_recursive rng sw [])" for r
      using True
      apply (simp add: Let_def case_prod_beta)
      apply (subst ih(4))
      apply (subst ih(3))
      apply (subst ih(1))
      apply (subst ih(2))
      apply simp
      done
    then show ?thesis by (simp add: for_each_point_eq)
  qed
qed

lemma QueryRange_private_recursive_subset:
  "set (snd (QueryRange_private_recursive rng t [])) \<subseteq>
   {d \<in> set (stored t). ContainsPoint rng (point d)}"
proof (induction t)
  case (Leaf b ps)
  show ?case by (auto simp: for_each_point_eq)
next
  case (Internal b ps nw ne se sw)
  have "snd (QueryRange_private_recursive rng (Internal b ps nw ne se sw) []) =
          (if \<not> Intersects_AABB b rng then [] else
          for_each_point rng ps [] @ snd (QueryRange_private_recursive rng ne []) @
          snd (QueryRange_private_recursive rng nw []) @
          snd (QueryRange_private_recursive rng se []) @
          snd (QueryRange_private_recursive rng sw []))"
      apply (simp add: Let_def case_prod_beta)
      apply (subst QueryRange_private_recursive_append[of _ sw])
      apply (subst QueryRange_private_recursive_append[of _ se])
      apply (subst QueryRange_private_recursive_append[of _ nw])
      apply (subst QueryRange_private_recursive_append[of _ ne])
      apply simp
      done
  with Internal.IH show ?case by (auto simp: for_each_point_eq)
qed




text \<open>
  With a capacity of zero a node never has room, and every split creates children that
  split again: \<^verbatim>\<open>Insert\<close> of a point inside the region does not return. The
  statements about insertions below therefore take a positive capacity where they say that a
  call returns.
\<close>

lemma Insert_zero_aux:
  assumes "Insert cap d t = Some rt"
  shows "cap = 0 \<longrightarrow> wf 0 t \<longrightarrow> \<not> contains (boundaries t) (point d) \<and> rt = (False, t)"
proof (rule Insert.raw_induct[OF _ assms], goal_cases)
  case (1 f cap d t rt)
  note IH = 1(1)
  from 1(2) show ?case
  proof (cases rule: Insert_body_cases)
    case outside
    then show ?thesis by simp
  next
    case room
    then show ?thesis by simp
  next
    case (first nw ne se sw nw')
    show ?thesis
    proof (intro impI)
      assume c: "cap = 0" and w: "wf 0 t"
      from kids_wf[OF first(3), of 0] w have "wf 0 nw" by simp
      with IH[OF first(4)] c show "\<not> contains (boundaries t) (point d) \<and> rt = (False, t)"
        by simp
    qed
  next
    case (second nw ne se sw nw' ne')
    show ?thesis
    proof (intro impI)
      assume c: "cap = 0" and w: "wf 0 t"
      from kids_wf[OF second(3), of 0] w have "wf 0 ne" by simp
      with IH[OF second(5)] c show "\<not> contains (boundaries t) (point d) \<and> rt = (False, t)"
        by simp
    qed
  next
    case (third nw ne se sw nw' ne' se')
    show ?thesis
    proof (intro impI)
      assume c: "cap = 0" and w: "wf 0 t"
      from kids_wf[OF third(3), of 0] w have "wf 0 se" by simp
      with IH[OF third(6)] c show "\<not> contains (boundaries t) (point d) \<and> rt = (False, t)"
        by simp
    qed
  next
    case (fourth nw ne se sw nw' ne' se' sw' r)
    show ?thesis
    proof (intro impI)
      assume c: "cap = 0" and w: "wf 0 t"
      from kids_wf[OF fourth(3), of 0] w
      have kw: "wf 0 (Internal (boundaries t) (points t) nw ne se sw)" by simp
      then have k: "wf 0 nw" "wf 0 ne" "wf 0 se" "wf 0 sw" by simp_all
      from IH[OF fourth(4)] IH[OF fourth(5)] IH[OF fourth(6)] IH[OF fourth(7)] c k
      have "\<not> contains (boundaries nw) (point d)" "\<not> contains (boundaries ne) (point d)"
        "\<not> contains (boundaries se) (point d)" "\<not> contains (boundaries sw) (point d)"
        by simp_all
      with wf_cover[OF kw fourth(1)] show "\<not> contains (boundaries t) (point d) \<and> rt = (False, t)"
        by blast
    qed
  qed
qed

lemma Insert_zero_capacity_diverges:
  assumes "wf 0 t" "contains (boundaries t) (point d)"
  shows "Insert 0 d t = None"
proof (cases "Insert 0 d t")
  case None
  then show ?thesis .
next
  case (Some rt)
  from Insert_zero_aux[OF Some] assms show ?thesis by simp
qed

section \<open>The claims\<close>

lemmas scenario_defs =
  scenario_def root_region_def region_def entry_def PointQuadTree_def
  contains_def ContainsPoint_def Intersects_AABB_def

text \<open>
  Claim C3. For every tree and every entry whose point lies outside the root node's region,
  \<^verbatim>\<open>Insert\<close> called on the root returns false and leaves the tree unchanged: the node
  returned is the node given, so the number of stored entries is the same and a leaf stays a
  leaf. This holds for every capacity.
\<close>

theorem Insert_outside_unchanged:
  assumes "\<not> contains (boundaries t) (point d)"
  shows "\<exists>t'. Insert cap d t = Some (False, t') \<and> t' = t \<and>
              length (stored t') = length (stored t) \<and> (is_Leaf t' \<longleftrightarrow> is_Leaf t)"
  using assms by (simp add: Insert_outside)

theorem Insert_outside_unchanged_witness:
  "\<not> contains root_region (point (entry 50 50)) \<and>
   Insert 4 (entry 50 50) (PointQuadTree root_region) = Some (False, PointQuadTree root_region)"
  using Insert_outside_unchanged[of "PointQuadTree root_region" "entry 50 50" 4]
  by (simp add: scenario_defs)

text \<open>
  Claim C8. \<^verbatim>\<open>QueryRange\<close> never mutates the tree: the node the call leaves behind is
  the node it was given, for every tree and every query region, and so is the node the
  recursive worker leaves behind, whatever vector it is given. The worker only appends to
  that vector, and the sequence the public function returns is what the worker appends to a
  vector that starts empty.
\<close>

theorem QueryRange_no_mutation:
  "fst (QueryRange rng t) = t \<and>
   (\<forall>res. fst (QueryRange_private_recursive rng t res) = t \<and>
          snd (QueryRange_private_recursive rng t res) = res @ snd (QueryRange rng t))"
proof -
  have "snd (QueryRange_private_recursive rng t res) = res @ snd (QueryRange rng t)" for res
    unfolding QueryRange_def Let_def by (rule QueryRange_private_recursive_append)
  moreover have "fst (QueryRange rng t) = t"
    by (simp add: QueryRange_def QueryRange_private_recursive_fst)
  ultimately show ?thesis
    by (simp add: QueryRange_private_recursive_fst)
qed

lemmas Insert_eval =
  Insert_outside Insert_Leaf_room Insert_Leaf_full Insert_Internal_full Subdivide_simp

lemma scenario_run:
  "Insert_all 4 scenario (PointQuadTree root_region) = Some (replicate 5 True, scenario_tree)"
  by (simp add: scenario_tree_def scenario_defs Insert_eval eval_nat_numeral)

lemma fresh_root: "wf cap (PointQuadTree b)" "contained (PointQuadTree b)"
  "boundaries (PointQuadTree b) = b" "stored (PointQuadTree b) = []"
  by (simp_all add: PointQuadTree_def)

text \<open>
  Claim C1. For every sequence of entries whose points lie in the root's region, inserted one
  after the other at a fresh root, every \<^verbatim>\<open>Insert\<close> call returns true, and on the
  resulting tree \<^verbatim>\<open>QueryRange\<close> returns, for every query region, exactly the inserted
  entries whose points lie in that region: the two are equal as multisets, so no entry is
  missing, none is returned that was not inserted, and none is returned twice. The capacity
  is positive.
\<close>

theorem QueryRange_exact:
  assumes "0 < cap" and "\<forall>d \<in> set ds. contains b (point d)"
  shows "\<exists>t. Insert_all cap ds (PointQuadTree b) = Some (replicate (length ds) True, t) \<and>
             (\<forall>q. mset (snd (QueryRange q t)) =
                    mset (filter (\<lambda>d. ContainsPoint q (point d)) ds))"
proof -
  from Insert_all_total[OF assms(1) fresh_root(1,2), of ds b] obtain t where
    run: "Insert_all cap ds (PointQuadTree b) = Some (map (\<lambda>d. contains b (point d)) ds, t)"
    and c: "contained t"
    and m: "mset (stored t) = mset (filter (\<lambda>d. contains b (point d)) ds)"
    by (auto simp: fresh_root)
  from assms(2) have all: "map (\<lambda>d. contains b (point d)) ds = replicate (length ds) True"
    by (induction ds) simp_all
  from assms(2) have "filter (\<lambda>d. contains b (point d)) ds = ds"
    by (simp add: filter_id_conv)
  with m have m': "mset (stored t) = mset ds" by simp
  have "mset (snd (QueryRange q t)) = mset (filter (\<lambda>d. ContainsPoint q (point d)) ds)" for q
  proof -
    have "mset (snd (QueryRange q t)) =
          filter_mset (\<lambda>d. ContainsPoint q (point d)) (mset (stored t))"
      by (simp add: QueryRange_mset[OF c])
    then show ?thesis by (simp add: m')
  qed
  with run all show ?thesis by simp
qed

theorem QueryRange_exact_witness:
  "\<exists>t. Insert_all 4 scenario (PointQuadTree root_region) = Some (replicate 5 True, t) \<and>
       mset (snd (QueryRange (region 4 4 1 1) t)) = mset [entry 3 3, entry 4 4, entry 5 5]"
proof -
  have h: "\<forall>d \<in> set scenario. contains root_region (point d)"
    by (simp add: scenario_defs)
  have f: "filter (\<lambda>d. ContainsPoint (region 4 4 1 1) (point d)) scenario =
           [entry 3 3, entry 4 4, entry 5 5]"
    by (simp add: scenario_defs)
  have l: "length scenario = 5" by (simp add: scenario_def)
  from QueryRange_exact[of 4 scenario root_region, OF _ h] obtain t where
    r: "Insert_all 4 scenario (PointQuadTree root_region) = Some (replicate (length scenario) True, t)"
    and q: "\<forall>q. mset (snd (QueryRange q t)) =
                 mset (filter (\<lambda>d. ContainsPoint q (point d)) scenario)"
    by auto
  from q have "mset (snd (QueryRange (region 4 4 1 1) t)) =
               mset (filter (\<lambda>d. ContainsPoint (region 4 4 1 1) (point d)) scenario)"
    by (rule spec)
  then have "mset (snd (QueryRange (region 4 4 1 1) t)) = mset [entry 3 3, entry 4 4, entry 5 5]"
    unfolding f .
  with r show ?thesis unfolding l by (intro exI conjI)
qed

text \<open>
  Claim C6. After any sequence of \<^verbatim>\<open>Insert\<close> calls on a fresh root, at every node of
  the tree every entry stored at the node or below it has its point in the node's region.
  This holds for every capacity and every sequence of entries whenever the calls return, and
  with a positive capacity they always return.
\<close>

theorem Insert_keeps_entries_in_region:
  "(Insert_all cap ds (PointQuadTree b) = Some (rs, t) \<longrightarrow> contained t) \<and>
   (0 < cap \<longrightarrow> (\<exists>rs' t'. Insert_all cap ds (PointQuadTree b) = Some (rs', t')))"
proof (intro conjI impI)
  assume "Insert_all cap ds (PointQuadTree b) = Some (rs, t)"
  from Insert_all_partial[OF this] show "contained t" by (simp add: fresh_root)
next
  assume "0 < cap"
  from Insert_all_total[OF this fresh_root(1,2), of ds b]
  show "\<exists>rs' t'. Insert_all cap ds (PointQuadTree b) = Some (rs', t')" by blast
qed

theorem Insert_keeps_entries_in_region_witness:
  "Insert_all 4 scenario (PointQuadTree root_region) = Some (replicate 5 True, scenario_tree) \<and>
   contained scenario_tree"
  using Insert_keeps_entries_in_region[of 4 scenario root_region "replicate 5 True" scenario_tree]
  by (simp add: scenario_run)

text \<open>
  Claim C5. Every node of a tree built by \<^verbatim>\<open>Insert\<close> calls on a fresh root is either a
  leaf, whose bucket holds at most \<open>cap\<close> entries, or an internal node with four children,
  whose bucket holds the \<open>cap\<close> entries it accepted as a leaf. A further \<^verbatim>\<open>Insert\<close>
  keeps this shape and appends to no bucket of an internal node: a node that is internal stays
  internal with the same bucket, and a leaf that splits keeps its bucket as it is. With a
  positive capacity the calls always return.
\<close>

theorem bucket_frozen_after_split:
  "(Insert_all cap ds (PointQuadTree b) = Some (rs, t) \<longrightarrow>
      wf cap t \<and>
      (\<forall>d r t'. Insert cap d t = Some (r, t') \<longrightarrow> wf cap t' \<and> bucket_frozen t t')) \<and>
   (0 < cap \<longrightarrow>
      (\<exists>rs' t'. Insert_all cap ds (PointQuadTree b) = Some (rs', t') \<and>
         (\<forall>d. \<exists>r t''. Insert cap d t' = Some (r, t''))))"
proof (intro conjI impI allI)
  assume a: "Insert_all cap ds (PointQuadTree b) = Some (rs, t)"
  from Insert_all_partial[OF a] show w: "wf cap t" by (simp add: fresh_root)
  fix d r t' assume i: "Insert cap d t = Some (r, t')"
  from Insert_wf_aux[OF i] w show "wf cap t'" by simp
  from Insert_wf_aux[OF i] w show "bucket_frozen t t'" by simp
next
  assume c: "0 < cap"
  from Insert_all_total[OF c fresh_root(1,2), of ds b] obtain rs' t' where
    a: "Insert_all cap ds (PointQuadTree b) = Some (rs', t')" and w: "wf cap t'" by blast
  from Insert_wf_total[OF c w] have "\<forall>d. \<exists>r t''. Insert cap d t' = Some (r, t'')" by blast
  with a show "\<exists>rs' t'. Insert_all cap ds (PointQuadTree b) = Some (rs', t') \<and>
         (\<forall>d. \<exists>r t''. Insert cap d t' = Some (r, t''))" by blast
qed

theorem bucket_frozen_after_split_witness:
  "Insert_all 4 scenario (PointQuadTree root_region) = Some (replicate 5 True, scenario_tree) \<and>
   wf 4 scenario_tree \<and>
   Insert 4 (entry 6 6) scenario_tree =
     Some (True,
       Internal root_region [entry 1 1, entry 2 2, entry 3 3, entry 4 4]
         (Leaf (region (-10) 10 10 10) [])
         (Leaf (region 10 10 10 10) [entry 5 5, entry 6 6])
         (Leaf (region 10 (-10) 10 10) [])
         (Leaf (region (-10) (-10) 10 10) [])) \<and>
   bucket_frozen scenario_tree
     (Internal root_region [entry 1 1, entry 2 2, entry 3 3, entry 4 4]
         (Leaf (region (-10) 10 10 10) [])
         (Leaf (region 10 10 10 10) [entry 5 5, entry 6 6])
         (Leaf (region 10 (-10) 10 10) [])
         (Leaf (region (-10) (-10) 10 10) []))"
proof -
  have i: "Insert 4 (entry 6 6) scenario_tree =
     Some (True,
       Internal root_region [entry 1 1, entry 2 2, entry 3 3, entry 4 4]
         (Leaf (region (-10) 10 10 10) [])
         (Leaf (region 10 10 10 10) [entry 5 5, entry 6 6])
         (Leaf (region 10 (-10) 10 10) [])
         (Leaf (region (-10) (-10) 10 10) []))"
    by (simp add: scenario_tree_def scenario_defs Insert_eval)
  from bucket_frozen_after_split[of 4 scenario root_region "replicate 5 True" scenario_tree]
    scenario_run i
  show ?thesis by blast
qed










text \<open>
  Claim C2. The claim says that the four child regions \<^verbatim>\<open>Subdivide\<close> creates have half
  the parent's half-extents and tile the parent's region, every point of the parent lying in
  exactly one child. The source initialises \<^verbatim>\<open>children_size\<close> with the node's own
  \<^verbatim>\<open>halfDimension\<close>, without dividing it. For the root region \<open>(0,0) \<plusminus> (10,10)\<close>
  the children therefore have half-extents \<open>(10,10)\<close>, not \<open>(5,5)\<close>, and centres
  \<open>(\<plusminus>10, \<plusminus>10)\<close>: each child is as large as its parent, the north-east child
  contains \<open>(15,15)\<close>, which the parent does not, and the parent's centre lies in all
  four children.
\<close>

theorem Subdivide_children_not_halved:
  "Subdivide (PointQuadTree root_region :: nat PointQuadTree) =
     Internal root_region []
       (Leaf (region (-10) 10 10 10) []) (Leaf (region 10 10 10 10) [])
       (Leaf (region 10 (-10) 10 10) []) (Leaf (region (-10) (-10) 10 10) []) \<and>
   halfDimension (region 10 10 10 10) = halfDimension root_region \<and>
   halfDimension (region 10 10 10 10) \<noteq> \<lparr>x = 5, y = 5\<rparr> \<and>
   contains (region 10 10 10 10) \<lparr>x = 15, y = 15\<rparr> \<and>
   \<not> contains root_region \<lparr>x = 15, y = 15\<rparr> \<and>
   contains (region (-10) 10 10 10) \<lparr>x = 0, y = 0\<rparr> \<and>
   contains (region 10 10 10 10) \<lparr>x = 0, y = 0\<rparr> \<and>
   contains (region 10 (-10) 10 10) \<lparr>x = 0, y = 0\<rparr> \<and>
   contains (region (-10) (-10) 10 10) \<lparr>x = 0, y = 0\<rparr>"
  by (simp add: scenario_defs Subdivide_simp)

subsection \<open>Arithmetic that rounds\<close>

lemma binary_exponent_floor_log:
  assumes "v \<noteq> 0"
  shows "binary_exponent v = \<lfloor>log 2 \<bar>v\<bar>\<rfloor>"
proof (cases "1 \<le> \<bar>v\<bar>")
  case True
  define n where "n = \<lfloor>\<bar>v\<bar>\<rfloor>"
  from True have n: "0 < n" by (simp add: n_def)
  define k where "k = nat (bitlen n - 1)"
  have bp: "0 < bitlen n"
    using n bitlen_nonneg[of n] bitlen_eq_zero_iff[of n] by linarith
  then have kk: "bitlen n - 1 = int k" and sk: "nat (bitlen n) = Suc k"
    by (simp_all add: k_def)
  from bitlen_bounds[OF n] have b: "2 ^ k \<le> n" "n < 2 ^ (Suc k)"
    unfolding sk k_def[symmetric] by simp_all
  have lo: "2 ^ k \<le> \<bar>v\<bar>"
  proof -
    have "real_of_int (2 ^ k) \<le> real_of_int n" using b(1) by linarith
    also have "\<dots> \<le> \<bar>v\<bar>" by (simp add: n_def)
    finally show ?thesis by simp
  qed
  have hi: "\<bar>v\<bar> < 2 ^ Suc k"
  proof -
    have "\<bar>v\<bar> < real_of_int n + 1" by (simp add: n_def)
    also have "\<dots> \<le> real_of_int (2 ^ Suc k)" using b(2) by linarith
    finally show ?thesis by simp
  qed
  have "\<lfloor>log 2 \<bar>v\<bar>\<rfloor> = int k"
    using lo hi assms
    by (subst floor_log_eq_powr_iff) (simp_all add: powr_realpow powr_add)
  with True kk show ?thesis by (simp add: binary_exponent_def n_def)
next
  case False
  define w where "w = 1 / \<bar>v\<bar>"
  from False assms have w1: "1 < w" by (simp add: w_def)
  define m where "m = \<lceil>w\<rceil> - 1"
  from w1 have m: "0 < m" unfolding m_def by linarith
  define j where "j = nat (bitlen m)"
  have bp: "0 < bitlen m"
    using m bitlen_nonneg[of m] bitlen_eq_zero_iff[of m] by linarith
  then have jm: "bitlen m = int j" and j0: "0 < j" and j1: "nat (bitlen m - 1) = j - 1"
    by (simp_all add: j_def nat_diff_distrib)
  from bitlen_bounds[OF m] have b: "2 ^ (j - 1) \<le> m" "m < 2 ^ j"
    unfolding j1 j_def[symmetric] by simp_all
  have lo: "2 ^ (j - 1) < w"
  proof -
    have "real_of_int (2 ^ (j - 1)) \<le> real_of_int m" using b(1) by linarith
    also have "\<dots> < w" unfolding m_def by linarith
    finally show ?thesis by simp
  qed
  have hi: "w \<le> 2 ^ j"
  proof -
    have "w \<le> real_of_int m + 1" unfolding m_def by linarith
    also have "\<dots> \<le> real_of_int (2 ^ j)" using b(2) by linarith
    finally show ?thesis by simp
  qed
  have v: "\<bar>v\<bar> = 1 / w" by (simp add: w_def)
  from w1 have wpos: "0 < w" by simp
  have lo': "1 / 2 ^ j \<le> \<bar>v\<bar>"
    unfolding v using hi wpos by (simp add: field_simps)
  have hi': "\<bar>v\<bar> < 1 / 2 ^ (j - 1)"
    unfolding v using lo wpos by (simp add: field_simps)
  have p1: "2 powr (- real j) = 1 / 2 ^ j"
    by (simp add: powr_minus powr_realpow field_simps)
  have p2: "2 powr (1 - real j) = 1 / 2 ^ (j - 1)"
  proof -
    have "2 powr (1 - real j) = 2 powr (- real (j - 1))"
      using j0 by (simp add: of_nat_diff)
    also have "\<dots> = 1 / 2 ^ (j - 1)"
      by (simp add: powr_minus powr_realpow divide_inverse)
    finally show ?thesis .
  qed
  have "\<lfloor>log 2 \<bar>v\<bar>\<rfloor> = - int j"
    using lo' hi' assms
    by (subst floor_log_eq_powr_iff) (simp_all add: p1 p2)
  with False jm show ?thesis by (simp add: binary_exponent_def w_def m_def)
qed

















subsection \<open>The query, whatever the edge convention\<close>

lemma for_each_point_with_eq:
  "for_each_point_with C rng ps res = res @ filter (\<lambda>p. C rng (point p)) ps"
  by (induction ps arbitrary: res) simp_all

lemma for_each_point_with_same:
  "for_each_point_with ContainsPoint rng ps res = for_each_point rng ps res"
  by (simp add: for_each_point_with_eq for_each_point_eq)

lemma QueryRange_private_recursive_with_same:
  "QueryRange_private_recursive_with Intersects_AABB ContainsPoint rng t res =
   QueryRange_private_recursive rng t res"
  by (induction t arbitrary: res) (simp_all add: for_each_point_with_same)

lemma QueryRange_with_same:
  "QueryRange_with Intersects_AABB ContainsPoint rng t = QueryRange rng t"
  by (simp add: QueryRange_with_def QueryRange_def QueryRange_private_recursive_with_same)

lemma QueryRange_private_recursive_with_fst:
  "fst (QueryRange_private_recursive_with I C rng t res) = t"
  by (induction t arbitrary: res) (simp_all add: Let_def case_prod_beta)

lemma QueryRange_private_recursive_with_append:
  "snd (QueryRange_private_recursive_with I C rng t res) =
   res @ snd (QueryRange_private_recursive_with I C rng t [])"
proof (induction t arbitrary: res)
  case (Leaf b ps)
  show ?case by (simp add: for_each_point_with_eq)
next
  case (Internal b ps nw ne se sw)
  note ih = Internal.IH
  show ?case
  proof (cases "I b rng")
    case False
    then show ?thesis by simp
  next
    case True
    have "snd (QueryRange_private_recursive_with I C rng (Internal b ps nw ne se sw) r) =
          for_each_point_with C rng ps r @
          snd (QueryRange_private_recursive_with I C rng ne []) @
          snd (QueryRange_private_recursive_with I C rng nw []) @
          snd (QueryRange_private_recursive_with I C rng se []) @
          snd (QueryRange_private_recursive_with I C rng sw [])" for r
      using True
      apply (simp add: Let_def case_prod_beta)
      apply (subst ih(4))
      apply (subst ih(3))
      apply (subst ih(1))
      apply (subst ih(2))
      apply simp
      done
    then show ?thesis by (simp add: for_each_point_with_eq)
  qed
qed

lemma QueryRange_private_recursive_with_subset:
  "set (snd (QueryRange_private_recursive_with I C rng t [])) \<subseteq>
   {d \<in> set (stored t). C rng (point d)}"
proof (induction t)
  case (Leaf b ps)
  show ?case by (auto simp: for_each_point_with_eq)
next
  case (Internal b ps nw ne se sw)
  have "snd (QueryRange_private_recursive_with I C rng (Internal b ps nw ne se sw) []) =
          (if \<not> I b rng then [] else
          for_each_point_with C rng ps [] @
          snd (QueryRange_private_recursive_with I C rng ne []) @
          snd (QueryRange_private_recursive_with I C rng nw []) @
          snd (QueryRange_private_recursive_with I C rng se []) @
          snd (QueryRange_private_recursive_with I C rng sw []))"
      apply (simp add: Let_def case_prod_beta)
      apply (subst QueryRange_private_recursive_with_append[of _ _ _ sw])
      apply (subst QueryRange_private_recursive_with_append[of _ _ _ se])
      apply (subst QueryRange_private_recursive_with_append[of _ _ _ nw])
      apply (subst QueryRange_private_recursive_with_append[of _ _ _ ne])
      apply simp
      done
  with Internal.IH show ?case by (auto simp: for_each_point_with_eq)
qed

lemma ContainsPoint_half_open_degenerate:
  "halfDimension q = \<lparr>x = 0, y = 0\<rparr> \<Longrightarrow> \<not> ContainsPoint_half_open q p"
  by (simp add: ContainsPoint_half_open_def)

text \<open>
  Claim C9. \<^verbatim>\<open>QueryRange\<close> has no failure path. Whatever the intersection and
  containment tests of the header are, the query returns for every tree and every query
  region and leaves the tree as it was; when the root's region does not intersect the query
  region the result is empty; and every entry returned is a stored entry whose point the
  containment test accepts for the query region. With the containment test the
  specification recommends (lower bound included, upper bound excluded) a region of zero
  area accepts no point, so a degenerate query yields the empty result on every tree.
\<close>

theorem QueryRange_no_failure:
  "(\<exists>rs. QueryRange_with I C q t = (t, rs)) \<and>
   (\<not> I (boundaries t) q \<longrightarrow> QueryRange_with I C q t = (t, [])) \<and>
   (\<forall>d \<in> set (snd (QueryRange_with I C q t)). d \<in> set (stored t) \<and> C q (point d)) \<and>
   (halfDimension q = \<lparr>x = 0, y = 0\<rparr> \<longrightarrow>
      QueryRange_with I ContainsPoint_half_open q t = (t, []))"
proof (intro conjI impI)
  have f: "fst (QueryRange_with I' C' q t) = t" for I' C'
    by (simp add: QueryRange_with_def QueryRange_private_recursive_with_fst)
  from f[of I C] show "\<exists>rs. QueryRange_with I C q t = (t, rs)"
    by (cases "QueryRange_with I C q t") simp
  show "QueryRange_with I C q t = (t, [])" if "\<not> I (boundaries t) q"
    using that by (cases t) (simp_all add: QueryRange_with_def)
  have sub: "set (snd (QueryRange_with I' C' q t)) \<subseteq> {d \<in> set (stored t). C' q (point d)}"
    for I' C'
    unfolding QueryRange_with_def Let_def by (rule QueryRange_private_recursive_with_subset)
  from sub[of I C]
  show "\<forall>d \<in> set (snd (QueryRange_with I C q t)). d \<in> set (stored t) \<and> C q (point d)"
    by blast
  show "QueryRange_with I ContainsPoint_half_open q t = (t, [])"
    if d: "halfDimension q = \<lparr>x = 0, y = 0\<rparr>"
  proof -
    from sub[of I ContainsPoint_half_open] ContainsPoint_half_open_degenerate[OF d]
    have "set (snd (QueryRange_with I ContainsPoint_half_open q t)) = {}" by auto
    then have "snd (QueryRange_with I ContainsPoint_half_open q t) = []" by simp
    with f[of I ContainsPoint_half_open] show ?thesis
      by (cases "QueryRange_with I ContainsPoint_half_open q t") simp
  qed
qed

theorem QueryRange_no_failure_witness:
  "halfDimension (region 1 1 0 0) = \<lparr>x = 0, y = 0\<rparr> \<and>
   QueryRange_with Intersects_AABB ContainsPoint_half_open (region 1 1 0 0) scenario_tree =
     (scenario_tree, []) \<and>
   \<not> Intersects_AABB (boundaries scenario_tree) (region 50 50 1 1) \<and>
   QueryRange_with Intersects_AABB ContainsPoint (region 50 50 1 1) scenario_tree =
     (scenario_tree, [])"
proof -
  have a: "halfDimension (region 1 1 0 0) = \<lparr>x = 0, y = 0\<rparr>"
    "\<not> Intersects_AABB (boundaries scenario_tree) (region 50 50 1 1)"
    by (simp_all add: scenario_tree_def scenario_defs)
  from QueryRange_no_failure[of Intersects_AABB ContainsPoint "region 50 50 1 1" scenario_tree]
    QueryRange_no_failure[of Intersects_AABB ContainsPoint "region 1 1 0 0" scenario_tree] a
  show ?thesis by blast
qed

text \<open>
  The degenerate case rests on the edge convention: with the closed-interval test a region
  of zero area still accepts its own centre, and the query returns an entry stored there.
\<close>

lemma QueryRange_degenerate_closed_interval:
  "snd (QueryRange_with Intersects_AABB ContainsPoint (region 1 1 0 0)
          (Leaf root_region [entry 1 1])) = [entry 1 1]"
  by (simp add: scenario_defs QueryRange_with_def)

end
